theory Spec2Isabelle
  imports Main
begin

section \<open>PDF Tools backend: temp-file lifecycle and download handles\<close>

text \<open>
  A shallow embedding of \<^verbatim>\<open>main.py\<close>. Strings are byte lists. The temp directory is a
  finite map from paths to file contents; \<^verbatim>\<open>uuid.uuid4()\<close> is a supply of strings read
  through a counter kept in the state. The external engines (PyPDF2, PIL) are parameters:
  whether the import succeeds and the text of its exception when it does not, how a file
  is parsed (None when the library raises), and what bytes the library writes for a list
  of pages. An exception that no handler catches is the value \<open>Uncaught\<close>. File writes and
  removals within the temp directory are taken to succeed. Handlers receive uploads whose
  filename is a string, as the multipart parser supplies them; \<open>lower\<close> maps the ASCII
  capitals, the only characters whose lower case occurs in the extensions tested.
\<close>

subsection \<open>Python string and path primitives\<close>

type_synonym bytes = string

definition upper_letters :: string where
  "upper_letters = ''ABCDEFGHIJKLMNOPQRSTUVWXYZ''"

definition lower_letters :: string where
  "lower_letters = ''abcdefghijklmnopqrstuvwxyz''"

definition lower_char :: "char \<Rightarrow> char" where
  "lower_char c = (case map_of (zip upper_letters lower_letters) c of
                     Some d \<Rightarrow> d | None \<Rightarrow> c)"

definition lower :: "string \<Rightarrow> string" where
  "lower s = map lower_char s"

definition endswith :: "string \<Rightarrow> string \<Rightarrow> bool" where
  "endswith s suf = (length suf \<le> length s \<and> drop (length s - length suf) s = suf)"

definition after_last :: "char \<Rightarrow> string \<Rightarrow> string" where
  "after_last sep s = rev (takeWhile (\<lambda>c. c \<noteq> sep) (rev s))"

text \<open>\<^verbatim>\<open>os.path.basename\<close> (posix): everything after the last slash.\<close>

definition basename :: "string \<Rightarrow> string" where
  "basename p = after_last (CHR ''/'') p"

text \<open>\<^verbatim>\<open>s.split(".")[-1]\<close>: everything after the last dot, the whole string if none.\<close>

definition split_dot_last :: "string \<Rightarrow> string" where
  "split_dot_last s = after_last (CHR ''.'') s"

text \<open>\<^verbatim>\<open>os.path.join\<close> (posix) of two components.\<close>

definition join :: "string \<Rightarrow> string \<Rightarrow> string" where
  "join a b = (if b \<noteq> [] \<and> hd b = CHR ''/'' then b
               else if a = [] \<or> last a = CHR ''/'' then a @ b
               else a @ ''/'' @ b)"

definition digit_char :: "nat \<Rightarrow> char" where
  "digit_char d = ''0123456789'' ! d"

text \<open>\<^verbatim>\<open>str\<close> of a non-negative integer (the value of \<^verbatim>\<open>len\<close>).\<close>

fun str_nat :: "nat \<Rightarrow> string" where
  "str_nat n = (if n < 10 then [digit_char n]
                else str_nat (n div 10) @ [digit_char (n mod 10)])"

declare str_nat.simps [simp del]

definition TEMP_DIR :: string where
  "TEMP_DIR = ''/tmp/processed_files''"

subsection \<open>Data\<close>

record upload =
  filename :: string
  content :: bytes

datatype exn =
    HTTPException nat string
  | Uncaught

fun InvalidInput :: "exn \<Rightarrow> bool" where
  "InvalidInput (HTTPException code detail) = (code = 400)"
| "InvalidInput Uncaught = False"

fun EngineUnavailable :: "exn \<Rightarrow> bool" where
  "EngineUnavailable (HTTPException code detail) = (code = 500)"
| "EngineUnavailable Uncaught = False"


record download =
  file_id :: string
  label :: string
  download_url :: string

record state =
  files :: "string \<rightharpoonup> bytes"
  uuid_next :: nat

record ('p, 'i) env =
  uuid4 :: "nat \<Rightarrow> string"
  pypdf2_importable :: bool
  pypdf2_error :: string
  PdfReader :: "bytes \<Rightarrow> 'p list option"
  PdfWriter_write :: "'p list \<Rightarrow> bytes"
  pil_importable :: bool
  pil_error :: string
  Image_open :: "bytes \<Rightarrow> 'i option"
  Image_save :: "'i \<Rightarrow> 'i list \<Rightarrow> bytes"

subsection \<open>Upload store and download handle\<close>

definition save_upload :: "('p, 'i) env \<Rightarrow> state \<Rightarrow> upload \<Rightarrow> (exn + string) \<times> state" where
  "save_upload E st file =
     (if filename file = [] then (Inl (HTTPException 400 ''File must have a filename''), st)
      else
        let fname = basename (filename file);
            ext = lower (split_dot_last fname);
            safe_id = uuid4 E (uuid_next st);
            dest_path = join TEMP_DIR (safe_id @ ''.'' @ ext)
        in (Inr dest_path,
            st\<lparr>files := (files st)(dest_path \<mapsto> content file),
               uuid_next := Suc (uuid_next st)\<rparr>))"

definition make_download :: "string \<Rightarrow> string \<Rightarrow> download" where
  "make_download file_path lbl =
     (let fid = basename file_path
      in \<lparr>file_id = fid, label = lbl, download_url = ''/api/download/'' @ fid\<rparr>)"

text \<open>The \<^verbatim>\<open>finally\<close> blocks: remove every saved path, ignoring failures.\<close>

fun remove_all :: "string list \<Rightarrow> state \<Rightarrow> state" where
  "remove_all [] st = st"
| "remove_all (p # ps) st = remove_all ps (st\<lparr>files := (files st)(p := None)\<rparr>)"

subsection \<open>Merge\<close>

text \<open>
  The \<^verbatim>\<open>for f in files\<close> loop of the merge handler. It carries the writer's pages and
  the saved paths, and stops at the first exception.
\<close>

fun merge_loop ::
  "('p, 'i) env \<Rightarrow> upload list \<Rightarrow> 'p list \<Rightarrow> string list \<Rightarrow> state
     \<Rightarrow> exn option \<times> 'p list \<times> string list \<times> state" where
  "merge_loop E [] writer saved st = (None, writer, saved, st)"
| "merge_loop E (f # fs) writer saved st =
     (if \<not> endswith (lower (filename f)) ''.pdf''
      then (Some (HTTPException 400 (filename f @ '' is not a PDF'')), writer, saved, st)
      else case save_upload E st f of
             (Inl e, st1) \<Rightarrow> (Some e, writer, saved, st1)
           | (Inr p, st1) \<Rightarrow>
               (case Option.bind (files st1 p) (PdfReader E) of
                  None \<Rightarrow> (Some Uncaught, writer, saved @ [p], st1)
                | Some pages \<Rightarrow> merge_loop E fs (writer @ pages) (saved @ [p]) st1))"

text \<open>The body of the \<^verbatim>\<open>try\<close> block, returning the saved paths for the \<^verbatim>\<open>finally\<close>.\<close>

definition merge_try ::
  "('p, 'i) env \<Rightarrow> state \<Rightarrow> upload list \<Rightarrow> (exn + download) \<times> string list \<times> state" where
  "merge_try E st fs =
     (case merge_loop E fs [] [] st of
        (Some e, writer, saved, st1) \<Rightarrow> (Inl e, saved, st1)
      | (None, writer, saved, st1) \<Rightarrow>
          let out_id = uuid4 E (uuid_next st1);
              out_path = join TEMP_DIR (''merged_'' @ out_id @ ''.pdf'');
              st2 = st1\<lparr>files := (files st1)(out_path \<mapsto> PdfWriter_write E writer),
                        uuid_next := Suc (uuid_next st1)\<rparr>
          in (Inr (make_download out_path (''merged_'' @ out_id @ ''.pdf'')), saved, st2))"

definition merge_pdfs ::
  "('p, 'i) env \<Rightarrow> state \<Rightarrow> upload list \<Rightarrow> (exn + download) \<times> state" where
  "merge_pdfs E st fs =
     (if \<not> pypdf2_importable E
      then (Inl (HTTPException 500 (''PDF engine unavailable: '' @ pypdf2_error E)), st)
      else if fs = [] \<or> length fs < 2
      then (Inl (HTTPException 400 ''Please upload at least two PDF files to merge''), st)
      else case merge_try E st fs of
             (r, saved, st1) \<Rightarrow> (r, remove_all saved st1))"

subsection \<open>Split\<close>

text \<open>\<^verbatim>\<open>reader.pages[i]\<close>: Python indexing, negative indices count from the end.\<close>

definition py_index :: "'a list \<Rightarrow> int \<Rightarrow> 'a option" where
  "py_index xs i =
     (let n = int (length xs); j = (if i < 0 then i + n else i)
      in if 0 \<le> j \<and> j < n then Some (xs ! nat j) else None)"

text \<open>The loop \<^verbatim>\<open>for i in range(start_page - 1, end_page)\<close>, over the list of indices.\<close>

fun split_loop :: "'p list \<Rightarrow> int list \<Rightarrow> 'p list \<Rightarrow> 'p list option" where
  "split_loop pages [] writer = Some writer"
| "split_loop pages (i # is) writer =
     (case py_index pages i of
        None \<Rightarrow> None
      | Some pg \<Rightarrow> split_loop pages is (writer @ [pg]))"

definition split_try ::
  "('p, 'i) env \<Rightarrow> state \<Rightarrow> string \<Rightarrow> int \<Rightarrow> int \<Rightarrow> (exn + download) \<times> state" where
  "split_try E st src_path start_page end_page =
     (case Option.bind (files st src_path) (PdfReader E) of
        None \<Rightarrow> (Inl Uncaught, st)
      | Some pages \<Rightarrow>
          let total = length pages in
          if start_page < 1 \<or> end_page < start_page \<or> end_page > int total
          then (Inl (HTTPException 400
                  (''Invalid page range. Document has '' @ str_nat total @ '' pages.'')), st)
          else (case split_loop pages [start_page - 1 .. end_page - 1] [] of
                  None \<Rightarrow> (Inl Uncaught, st)
                | Some writer \<Rightarrow>
                    (let out_id = uuid4 E (uuid_next st);
                         out_path = join TEMP_DIR (''split_'' @ out_id @ ''.pdf'');
                         st2 = st\<lparr>files := (files st)(out_path \<mapsto> PdfWriter_write E writer),
                                  uuid_next := Suc (uuid_next st)\<rparr>
                     in (Inr (make_download out_path (''split_'' @ out_id @ ''.pdf'')), st2))))"

definition split_pdf ::
  "('p, 'i) env \<Rightarrow> state \<Rightarrow> upload \<Rightarrow> int \<Rightarrow> int \<Rightarrow> (exn + download) \<times> state" where
  "split_pdf E st file start_page end_page =
     (if \<not> pypdf2_importable E
      then (Inl (HTTPException 500 (''PDF engine unavailable: '' @ pypdf2_error E)), st)
      else if \<not> endswith (lower (filename file)) ''.pdf''
      then (Inl (HTTPException 400 ''Uploaded file must be a PDF''), st)
      else case save_upload E st file of
             (Inl e, st1) \<Rightarrow> (Inl e, st1)
           | (Inr src_path, st1) \<Rightarrow>
               (case split_try E st1 src_path start_page end_page of
                  (r, st2) \<Rightarrow> (r, remove_all [src_path] st2)))"

subsection \<open>Images to PDF\<close>

definition image_exts :: "string list" where
  "image_exts = [''.png'', ''.jpg'', ''.jpeg'', ''.webp'', ''.bmp'']"

fun images_loop ::
  "('p, 'i) env \<Rightarrow> upload list \<Rightarrow> 'i list \<Rightarrow> string list \<Rightarrow> state
     \<Rightarrow> exn option \<times> 'i list \<times> string list \<times> state" where
  "images_loop E [] pil_images saved st = (None, pil_images, saved, st)"
| "images_loop E (img # imgs) pil_images saved st =
     (if \<not> list_ex (endswith (lower (filename img))) image_exts
      then (Some (HTTPException 400 (''Unsupported image format: '' @ filename img)),
            pil_images, saved, st)
      else case save_upload E st img of
             (Inl e, st1) \<Rightarrow> (Some e, pil_images, saved, st1)
           | (Inr p, st1) \<Rightarrow>
               (case Option.bind (files st1 p) (Image_open E) of
                  None \<Rightarrow> (Some Uncaught, pil_images, saved @ [p], st1)
                | Some pil \<Rightarrow> images_loop E imgs (pil_images @ [pil]) (saved @ [p]) st1))"

definition images_try ::
  "('p, 'i) env \<Rightarrow> state \<Rightarrow> upload list \<Rightarrow> (exn + download) \<times> string list \<times> state" where
  "images_try E st imgs =
     (case images_loop E imgs [] [] st of
        (Some e, pil_images, saved, st1) \<Rightarrow> (Inl e, saved, st1)
      | (None, pil_images, saved, st1) \<Rightarrow>
          let out_id = uuid4 E (uuid_next st1);
              out_path = join TEMP_DIR (''images_'' @ out_id @ ''.pdf'')
          in (case pil_images of
                [] \<Rightarrow> (Inl Uncaught, saved, st1\<lparr>uuid_next := Suc (uuid_next st1)\<rparr>)
              | first # rest \<Rightarrow>
                  (Inr (make_download out_path (''images_'' @ out_id @ ''.pdf'')), saved,
                   st1\<lparr>files := (files st1)(out_path \<mapsto> Image_save E first rest),
                       uuid_next := Suc (uuid_next st1)\<rparr>)))"

definition images_to_pdf ::
  "('p, 'i) env \<Rightarrow> state \<Rightarrow> upload list \<Rightarrow> (exn + download) \<times> state" where
  "images_to_pdf E st imgs =
     (if \<not> pil_importable E
      then (Inl (HTTPException 500 (''Image engine unavailable: '' @ pil_error E)), st)
      else if imgs = []
      then (Inl (HTTPException 400 ''Please upload at least one image''), st)
      else case images_try E st imgs of
             (r, saved, st1) \<Rightarrow> (r, remove_all saved st1))"

subsection \<open>Download\<close>

text \<open>
  \<^verbatim>\<open>os.path.exists\<close>. A path exists when it names a stored file, or when it resolves to a
  directory. The directories are the temp root and its ancestors, created by
  \<^verbatim>\<open>os.makedirs(TEMP_DIR, exist_ok=True)\<close> when the module is loaded; the program creates
  no others. A path is resolved component by component: empty components and \<^verbatim>\<open>.\<close> are
  skipped, \<^verbatim>\<open>..\<close> steps to the parent (the root is its own parent).
\<close>

fun split_on :: "char \<Rightarrow> string \<Rightarrow> string list" where
  "split_on sep [] = [[]]"
| "split_on sep (c # cs) =
     (if c = sep then [] # split_on sep cs
      else case split_on sep cs of
             [] \<Rightarrow> [[c]]
           | w # ws \<Rightarrow> (c # w) # ws)"

fun walk :: "string list \<Rightarrow> string list \<Rightarrow> string list" where
  "walk [] dir = dir"
| "walk (c # cs) dir =
     (if c = [] \<or> c = ''.'' then walk cs dir
      else if c = ''..'' then walk cs (butlast dir)
      else walk cs (dir @ [c]))"

definition resolve :: "string \<Rightarrow> string list" where
  "resolve p = walk (split_on (CHR ''/'') p) []"

definition existing_dirs :: "string list list" where
  "existing_dirs = [[], [''tmp''], [''tmp'', ''processed_files'']]"

definition path_exists :: "state \<Rightarrow> string \<Rightarrow> bool" where
  "path_exists st p = (files st p \<noteq> None \<or> resolve p \<in> set existing_dirs)"

record file_response =
  path :: string
  served_name :: string
  media_type :: string

definition download_file :: "state \<Rightarrow> string \<Rightarrow> exn + file_response" where
  "download_file st fid =
     (let safe_name = basename fid;
          file_path = join TEMP_DIR safe_name
      in if \<not> path_exists st file_path
         then Inl (HTTPException 404 ''File not found or expired'')
         else Inr \<lparr>path = file_path, served_name = safe_name,
                   media_type = ''application/pdf''\<rparr>)"

text \<open>A path lies inside the temp root when it resolves to the root or below it.\<close>

definition inside_temp_root :: "string \<Rightarrow> bool" where
  "inside_temp_root p =
     (take (length (resolve TEMP_DIR)) (resolve p) = resolve TEMP_DIR)"

subsection \<open>Concrete environments used in the examples\<close>

definition no_engine :: "(string, string) env" where
  "no_engine = \<lparr>uuid4 = (\<lambda>i. ''u''), pypdf2_importable = False,
                 pypdf2_error = ''No module named PyPDF2'',
                 PdfReader = (\<lambda>b. None), PdfWriter_write = concat,
                 pil_importable = False, pil_error = ''No module named PIL'',
                 Image_open = (\<lambda>b. None),
                 Image_save = (\<lambda>x xs. concat (x # xs))\<rparr>"

definition empty_store :: state where
  "empty_store = \<lparr>files = Map.empty, uuid_next = 0\<rparr>"

subsection \<open>Notions used in the statements\<close>

text \<open>
  The handlers' test on a file name, the path and the state that \<^verbatim>\<open>_save_upload\<close>
  produces for a named file, whether the engine reads an upload and the pages it then
  yields, and a small executable engine for the examples: a readable PDF is a percent
  sign followed by one character per page.
\<close>

definition is_pdf_name :: "upload \<Rightarrow> bool" where
  "is_pdf_name f = endswith (lower (filename f)) ''.pdf''"

definition dest_path :: "('p, 'i) env \<Rightarrow> nat \<Rightarrow> upload \<Rightarrow> string" where
  "dest_path E n f =
     join TEMP_DIR (uuid4 E n @ ''.'' @ lower (split_dot_last (basename (filename f))))"

definition stored :: "('p, 'i) env \<Rightarrow> state \<Rightarrow> upload \<Rightarrow> state" where
  "stored E st f =
     st\<lparr>files := (files st)(dest_path E (uuid_next st) f \<mapsto> content f),
        uuid_next := Suc (uuid_next st)\<rparr>"

definition readable :: "('p, 'i) env \<Rightarrow> upload \<Rightarrow> bool" where
  "readable E f = (PdfReader E (content f) \<noteq> None)"

definition doc_pages :: "('p, 'i) env \<Rightarrow> upload \<Rightarrow> 'p list" where
  "doc_pages E f = (case PdfReader E (content f) of None \<Rightarrow> [] | Some pages \<Rightarrow> pages)"

definition upload_paths :: "('p, 'i) env \<Rightarrow> string set" where
  "upload_paths E = {p. \<exists>n f. p = dest_path E n f}"

definition toy :: "(char, string) env" where
  "toy = \<lparr>uuid4 = (\<lambda>i. ''00000000-0000-4000-8000-00000000000'' @ [digit_char (i mod 10)]),
           pypdf2_importable = True, pypdf2_error = [],
           PdfReader = (\<lambda>b. case b of [] \<Rightarrow> None
                               | c # cs \<Rightarrow> if c = CHR ''%'' then Some cs else None),
           PdfWriter_write = (\<lambda>pages. CHR ''%'' # pages),
           pil_importable = True, pil_error = [],
           Image_open = (\<lambda>b. if b = [] then None else Some b),
           Image_save = (\<lambda>x xs. concat (map (\<lambda>i. CHR ''#'' # i) (x # xs)))\<rparr>"

definition a_pdf :: upload where "a_pdf = \<lparr>filename = ''a.pdf'', content = ''%xy''\<rparr>"

definition b_txt :: upload where "b_txt = \<lparr>filename = ''b.txt'', content = ''hello''\<rparr>"

definition bad_pdf :: upload where "bad_pdf = \<lparr>filename = ''bad.PDF'', content = ''junk''\<rparr>"

definition uuid_chars :: string where
  "uuid_chars = ''0123456789abcdef-''"

definition is_uuid :: "string \<Rightarrow> bool" where
  "is_uuid s = (length s = 36 \<and> list_all (\<lambda>c. c \<in> set uuid_chars) s)"

definition uuid_supply :: "('p, 'i) env \<Rightarrow> bool" where
  "uuid_supply E = (\<forall>n. is_uuid (uuid4 E n))"

definition five_pdf :: upload where
  "five_pdf = \<lparr>filename = ''Report.PDF'', content = ''%abcde''\<rparr>"

definition nth_page :: "'a list \<Rightarrow> int \<Rightarrow> 'a" where
  "nth_page xs k = xs ! nat (k - 1)"

definition c_pdf :: upload where "c_pdf = \<lparr>filename = ''c.pdf'', content = ''%z''\<rparr>"

definition is_image_name :: "upload \<Rightarrow> bool" where
  "is_image_name f = list_ex (endswith (lower (filename f))) image_exts"

definition decodable :: "('p, 'i) env \<Rightarrow> upload \<Rightarrow> bool" where
  "decodable E f = (Image_open E (content f) \<noteq> None)"

definition decoded :: "('p, 'i) env \<Rightarrow> upload \<Rightarrow> 'i" where
  "decoded E f = the (Image_open E (content f))"

definition p_png :: upload where "p_png = \<lparr>filename = ''p.png'', content = ''PNG''\<rparr>"

definition q_jpg :: upload where "q_jpg = \<lparr>filename = ''q.JPG'', content = ''JPEG''\<rparr>"





definition round_trip :: "download \<Rightarrow> state \<Rightarrow> state \<Rightarrow> bool" where
  "round_trip d st_written st_returned =
     (\<exists>out_path body.
        d = make_download out_path (label d) \<and>
        files st_written out_path = Some body \<and>
        join TEMP_DIR (basename (file_id d)) = out_path \<and>
        download_file st_returned (file_id d)
          = Inr \<lparr>path = out_path, served_name = file_id d, media_type = ''application/pdf''\<rparr> \<and>
        files st_returned out_path = Some body)"


section \<open>Properties\<close>

subsection \<open>Basic facts about the model\<close>

lemma length_lower: "length (lower s) = length s"
  by (simp add: lower_def)

lemma endswith_nonempty: "endswith (lower s) suf \<Longrightarrow> suf \<noteq> [] \<Longrightarrow> s \<noteq> []"
  by (auto simp: endswith_def lower_def)

lemma save_upload_named:
  "filename f \<noteq> [] \<Longrightarrow>
     save_upload E st f = (Inr (dest_path E (uuid_next st) f), stored E st f)"
  by (simp add: save_upload_def dest_path_def stored_def Let_def)

lemma files_stored_dest: "files (stored E st f) (dest_path E (uuid_next st) f) = Some (content f)"
  by (simp add: stored_def)

lemma merge_loop_step:
  "is_pdf_name f \<Longrightarrow>
   merge_loop E (f # fs) w sv st =
     (case PdfReader E (content f) of
        None \<Rightarrow> (Some Uncaught, w, sv @ [dest_path E (uuid_next st) f], stored E st f)
      | Some pages \<Rightarrow>
          merge_loop E fs (w @ pages) (sv @ [dest_path E (uuid_next st) f]) (stored E st f))"
proof -
  assume a: "is_pdf_name f"
  then have "filename f \<noteq> []"
    using endswith_nonempty [of "filename f" "''.pdf''"] by (simp add: is_pdf_name_def)
  then show ?thesis
    using a by (simp add: save_upload_named files_stored_dest is_pdf_name_def)
qed

lemma merge_loop_stop:
  "\<not> is_pdf_name f \<Longrightarrow>
   merge_loop E (f # fs) w sv st =
     (Some (HTTPException 400 (filename f @ '' is not a PDF'')), w, sv, st)"
  by (simp add: is_pdf_name_def)

declare merge_loop.simps(2) [simp del]

lemma files_remove_all:
  "files (remove_all ps st) = (\<lambda>p. if p \<in> set ps then None else files st p)"
  by (induction ps arbitrary: st) (auto simp: fun_eq_iff)

lemma uuid_next_remove_all: "uuid_next (remove_all ps st) = uuid_next st"
  by (induction ps arbitrary: st) auto

lemma merge_loop_invalid:
  "(\<exists>e. fst (merge_loop E fs w sv st) = Some e \<and> InvalidInput e) \<longleftrightarrow>
     \<not> list_all is_pdf_name fs \<and> list_all (readable E) (takeWhile is_pdf_name fs)"
proof (induction fs arbitrary: w sv st)
  case Nil
  show ?case by simp
next
  case (Cons f fs)
  show ?case
  proof (cases "is_pdf_name f")
    case False
    then show ?thesis by (simp add: merge_loop_stop)
  next
    case True
    show ?thesis
    proof (cases "PdfReader E (content f)")
      case None
      with True show ?thesis by (simp add: merge_loop_step readable_def)
    next
      case (Some pages)
      with True Cons.IH show ?thesis by (simp add: merge_loop_step readable_def)
    qed
  qed
qed

lemma merge_loop_ok:
  "list_all is_pdf_name fs \<Longrightarrow> list_all (readable E) fs \<Longrightarrow>
   \<exists>sv' st'. merge_loop E fs w sv st = (None, w @ concat (map (doc_pages E) fs), sv', st')"
proof (induction fs arbitrary: w sv st)
  case Nil
  show ?case by simp
next
  case (Cons f fs)
  then obtain pages where p: "PdfReader E (content f) = Some pages"
    by (auto simp: readable_def)
  from Cons.prems have "is_pdf_name f" "list_all is_pdf_name fs" "list_all (readable E) fs"
    by simp_all
  with Cons.IH [of "w @ pages"] p show ?case
    by (simp add: merge_loop_step doc_pages_def)
qed

lemma files_stored:
  "files (stored E st f) = (files st)(dest_path E (uuid_next st) f \<mapsto> content f)"
  by (simp add: stored_def)

lemma merge_loop_saved:
  "merge_loop E fs w sv st = (r, w', sv', st') \<Longrightarrow>
     set sv \<subseteq> set sv' \<and> set sv' \<subseteq> set sv \<union> upload_paths E \<and>
     dom (files st') \<subseteq> dom (files st) \<union> set sv'"
proof (induction fs arbitrary: w sv st)
  case Nil
  then show ?case by auto
next
  case (Cons f fs)
  show ?case
  proof (cases "is_pdf_name f")
    case False
    with Cons.prems show ?thesis by (auto simp: merge_loop_stop)
  next
    case True
    have in_up: "dest_path E (uuid_next st) f \<in> upload_paths E"
      by (auto simp: upload_paths_def)
    show ?thesis
    proof (cases "PdfReader E (content f)")
      case None
      with True Cons.prems in_up show ?thesis
        by (auto simp: merge_loop_step files_stored split: if_splits)
    next
      case (Some pages)
      with True Cons.prems
      have "merge_loop E fs (w @ pages) (sv @ [dest_path E (uuid_next st) f]) (stored E st f)
              = (r, w', sv', st')"
        by (simp add: merge_loop_step)
      from Cons.IH [OF this]
      have a: "set (sv @ [dest_path E (uuid_next st) f]) \<subseteq> set sv'"
        and b: "set sv' \<subseteq> set (sv @ [dest_path E (uuid_next st) f]) \<union> upload_paths E"
        and c: "dom (files st') \<subseteq> dom (files (stored E st f)) \<union> set sv'"
        by blast+
      have d: "dom (files (stored E st f)) \<subseteq> dom (files st) \<union> set sv'"
        using a by (auto simp: files_stored split: if_splits)
      have e: "set sv \<subseteq> set sv'"
        using a by simp
      have g: "set sv' \<subseteq> set sv \<union> upload_paths E"
        using b in_up by auto
      have h: "dom (files st') \<subseteq> dom (files st) \<union> set sv'"
        using c d by blast
      from e g h show ?thesis
        by blast

    qed
  qed
qed

lemma merge_try_invalid:
  "(\<exists>e. fst (merge_try E st fs) = Inl e \<and> InvalidInput e) \<longleftrightarrow>
     \<not> list_all is_pdf_name fs \<and> list_all (readable E) (takeWhile is_pdf_name fs)"
proof -
  obtain r w sv st1 where m: "merge_loop E fs [] [] st = (r, w, sv, st1)"
    by (metis prod_cases4)
  have "(\<exists>e. fst (merge_try E st fs) = Inl e \<and> InvalidInput e) \<longleftrightarrow>
        (\<exists>e. r = Some e \<and> InvalidInput e)"
    using m by (cases r) (simp_all add: merge_try_def Let_def)
  also have "\<dots> \<longleftrightarrow> (\<exists>e. fst (merge_loop E fs [] [] st) = Some e \<and> InvalidInput e)"
    using m by simp
  finally show ?thesis
    by (simp only: merge_loop_invalid)
qed

subsection \<open>Engine availability comes first\<close>

text \<open>
  C10. In each operation handler the engine import is tried before any validation of the
  request: when the import fails the handler answers with status 500 (engine
  unavailable), whatever the request holds, and so never with status 400.
\<close>

theorem engine_checked_first:
  "(\<not> pypdf2_importable E \<longrightarrow>
      (\<exists>e. merge_pdfs E st fs = (Inl e, st) \<and> EngineUnavailable e \<and> \<not> InvalidInput e) \<and>
      (\<exists>e. split_pdf E st f s t = (Inl e, st) \<and> EngineUnavailable e \<and> \<not> InvalidInput e)) \<and>
   (\<not> pil_importable E \<longrightarrow>
      (\<exists>e. images_to_pdf E st imgs = (Inl e, st) \<and> EngineUnavailable e \<and> \<not> InvalidInput e))"
  by (simp add: merge_pdfs_def split_pdf_def images_to_pdf_def)

theorem engine_checked_first_witness:
  "\<not> pypdf2_importable no_engine \<and> \<not> pil_importable no_engine \<and>
   (\<exists>e. merge_pdfs no_engine empty_store [] = (Inl e, empty_store)
        \<and> EngineUnavailable e \<and> \<not> InvalidInput e) \<and>
   (\<exists>e. split_pdf no_engine empty_store \<lparr>filename = ''a.txt'', content = ''x''\<rparr> 0 0
          = (Inl e, empty_store)
        \<and> EngineUnavailable e \<and> \<not> InvalidInput e) \<and>
   (\<exists>e. images_to_pdf no_engine empty_store [] = (Inl e, empty_store)
        \<and> EngineUnavailable e \<and> \<not> InvalidInput e)"
  using engine_checked_first [of no_engine empty_store "[]"
          "\<lparr>filename = ''a.txt'', content = ''x''\<rparr>" 0 0 "[]"]
  by (simp add: no_engine_def)

subsection \<open>Path safety of the download handler\<close>

text \<open>
  C1. The claim is that every identifier resolves inside the temp root. The handler
  keeps the part after the last slash, which removes every directory prefix, but the
  identifier \<^verbatim>\<open>..\<close> has no slash and is kept whole: the handler joins it to the temp
  root, finds that the path exists (it is the directory \<^verbatim>\<open>/tmp\<close>) and answers with a
  file response for a path that resolves to the parent of the temp root.
\<close>

theorem download_dotdot_escapes:
  "download_file empty_store ''..'' =
     Inr \<lparr>path = ''/tmp/processed_files/..'', served_name = ''..'',
          media_type = ''application/pdf''\<rparr> \<and>
   resolve ''/tmp/processed_files/..'' = [''tmp''] \<and>
   \<not> inside_temp_root ''/tmp/processed_files/..''"
  by (simp add: download_file_def basename_def after_last_def join_def TEMP_DIR_def
      path_exists_def resolve_def existing_dirs_def inside_temp_root_def empty_store_def Let_def)

subsection \<open>When merge rejects a request\<close>

text \<open>
  C7. The claim is that merge raises InvalidInput exactly when fewer than two files are
  supplied or some file's name does not end in \<^verbatim>\<open>.pdf\<close>. The handler checks the names
  one file at a time, inside the loop that also saves and reads each file, and only after
  the engine import. So the statement that holds is: with the engine importable, merge
  raises InvalidInput exactly when fewer than two files are supplied, or some file's name
  does not end in \<^verbatim>\<open>.pdf\<close> (ignoring case) and every file before the first such file is
  read by the engine without an exception.
\<close>

theorem merge_invalid_input_iff:
  "pypdf2_importable E \<Longrightarrow>
   (\<exists>e. fst (merge_pdfs E st fs) = Inl e \<and> InvalidInput e) \<longleftrightarrow>
     length fs < 2 \<or>
     (\<not> list_all is_pdf_name fs \<and> list_all (readable E) (takeWhile is_pdf_name fs))"
proof (cases "length fs < 2")
  case True
  assume "pypdf2_importable E"
  with True show ?thesis by (simp add: merge_pdfs_def)
next
  case False
  assume imp: "pypdf2_importable E"
  from False have ne: "fs \<noteq> []" by auto
  have "fst (merge_pdfs E st fs) = fst (merge_try E st fs)"
    using imp False ne by (simp add: merge_pdfs_def split: prod.splits)
  with False show ?thesis
    by (simp add: merge_try_invalid)
qed

lemma is_pdf_examples:
  "is_pdf_name a_pdf" "\<not> is_pdf_name b_txt" "is_pdf_name bad_pdf"
  by (simp_all add: is_pdf_name_def a_pdf_def b_txt_def bad_pdf_def endswith_def lower_def
      lower_char_def upper_letters_def lower_letters_def)

lemma readable_examples:
  "readable toy a_pdf" "\<not> readable toy bad_pdf"
  by (simp_all add: readable_def toy_def a_pdf_def bad_pdf_def)

theorem merge_invalid_input_iff_witness:
  "pypdf2_importable toy \<and>
   (\<exists>e. fst (merge_pdfs toy empty_store [a_pdf, b_txt]) = Inl e \<and> InvalidInput e)"
  using merge_invalid_input_iff [of toy empty_store "[a_pdf, b_txt]"]
  by (simp add: is_pdf_examples readable_examples) (simp add: toy_def)

theorem merge_invalid_input_counterexample:
  "fst (merge_pdfs toy empty_store [bad_pdf, b_txt]) = Inl Uncaught \<and>
   \<not> InvalidInput Uncaught \<and> \<not> is_pdf_name b_txt \<and>
   fst (merge_pdfs no_engine empty_store [a_pdf]) =
     Inl (HTTPException 500 ''PDF engine unavailable: No module named PyPDF2'') \<and>
   \<not> InvalidInput (HTTPException 500 ''PDF engine unavailable: No module named PyPDF2'') \<and>
   length [a_pdf] < 2"
proof -
  have r: "PdfReader toy (content bad_pdf) = None" and i: "pypdf2_importable toy"
    by (simp_all add: toy_def bad_pdf_def)
  have "fst (merge_pdfs toy empty_store [bad_pdf, b_txt]) = Inl Uncaught"
    by (simp add: merge_pdfs_def merge_try_def merge_loop_step is_pdf_examples r i)
  moreover have "fst (merge_pdfs no_engine empty_store [a_pdf]) =
                   Inl (HTTPException 500 ''PDF engine unavailable: No module named PyPDF2'')"
    by (simp add: merge_pdfs_def no_engine_def)
  ultimately show ?thesis
    by (simp add: is_pdf_examples)
qed

subsection \<open>When split rejects a request\<close>

lemma split_pdf_step:
  "pypdf2_importable E \<Longrightarrow> is_pdf_name file \<Longrightarrow>
   split_pdf E st file s t =
     (case split_try E (stored E st file) (dest_path E (uuid_next st) file) s t of
        (r, st2) \<Rightarrow> (r, remove_all [dest_path E (uuid_next st) file] st2))"
proof -
  assume i: "pypdf2_importable E" and a: "is_pdf_name file"
  then have "filename file \<noteq> []"
    using endswith_nonempty [of "filename file" "''.pdf''"] by (simp add: is_pdf_name_def)
  then show ?thesis
    using a i by (simp add: split_pdf_def save_upload_named is_pdf_name_def)
qed

lemma split_try_unreadable:
  "PdfReader E (content file) = None \<Longrightarrow>
   split_try E (stored E st file) (dest_path E (uuid_next st) file) s t
     = (Inl Uncaught, stored E st file)"
  by (simp add: split_try_def files_stored_dest)

lemma split_try_range:
  "PdfReader E (content file) = Some pages \<Longrightarrow>
   s < 1 \<or> t < s \<or> t > int (length pages) \<Longrightarrow>
   split_try E (stored E st file) (dest_path E (uuid_next st) file) s t
     = (Inl (HTTPException 400
          (''Invalid page range. Document has '' @ str_nat (length pages) @ '' pages.'')),
        stored E st file)"
  by (simp add: split_try_def files_stored_dest Let_def)

lemma split_loop_in_range:
  "\<forall>i\<in>set is. 0 \<le> i \<and> i < int (length pages) \<Longrightarrow>
   split_loop pages is w = Some (w @ map (\<lambda>i. pages ! nat i) is)"
  by (induction "is" arbitrary: w) (simp_all add: py_index_def Let_def)

lemma split_try_valid:
  "PdfReader E (content file) = Some pages \<Longrightarrow>
   1 \<le> s \<Longrightarrow> s \<le> t \<Longrightarrow> t \<le> int (length pages) \<Longrightarrow>
   split_try E (stored E st file) (dest_path E (uuid_next st) file) s t
     = (let out_name = ''split_'' @ uuid4 E (Suc (uuid_next st)) @ ''.pdf'';
            out_path = join TEMP_DIR out_name
        in (Inr (make_download out_path out_name),
            (stored E st file)\<lparr>files := (files (stored E st file))
                 (out_path \<mapsto> PdfWriter_write E (map (\<lambda>i. pages ! nat i) [s - 1 .. t - 1])),
               uuid_next := Suc (Suc (uuid_next st))\<rparr>))"
proof -
  assume r: "PdfReader E (content file) = Some pages"
    and b: "1 \<le> s" "s \<le> t" "t \<le> int (length pages)"
  have "\<forall>i\<in>set [s - 1 .. t - 1]. 0 \<le> i \<and> i < int (length pages)"
    using b by auto
  from split_loop_in_range [OF this, of "[]"] r b show ?thesis
    by (simp add: split_try_def files_stored_dest Let_def stored_def)
qed

text \<open>
  C3. The claim is that split raises InvalidInput exactly when the file's name does not
  end in \<^verbatim>\<open>.pdf\<close> or the page range is wrong for the document's page count N, and that
  the message then contains N. The handler tests the name after the engine import, and
  tests the range only after the engine has read the document. So the statement that
  holds is: with the engine importable, split raises InvalidInput exactly when the name
  does not end in \<^verbatim>\<open>.pdf\<close> (ignoring case), or the engine reads the document, with N
  pages, and \<open>start_page < 1\<close> or \<open>end_page < start_page\<close> or \<open>end_page > N\<close>; and every
  such page-range rejection carries the message
  \<^verbatim>\<open>Invalid page range. Document has N pages.\<close> with N in decimal.
\<close>

theorem split_invalid_input_iff:
  assumes "pypdf2_importable E"
  shows "((\<exists>e. fst (split_pdf E st file s t) = Inl e \<and> InvalidInput e) \<longleftrightarrow>
            \<not> is_pdf_name file \<or>
            (\<exists>pages. PdfReader E (content file) = Some pages \<and>
                     (s < 1 \<or> t < s \<or> t > int (length pages)))) \<and>
         (\<forall>pages. is_pdf_name file \<and> PdfReader E (content file) = Some pages \<and>
                  (s < 1 \<or> t < s \<or> t > int (length pages)) \<longrightarrow>
            fst (split_pdf E st file s t) =
              Inl (HTTPException 400
                (''Invalid page range. Document has '' @ str_nat (length pages) @ '' pages.'')))"
proof (cases "is_pdf_name file")
  case False
  with assms show ?thesis
    by (simp add: split_pdf_def is_pdf_name_def)
next
  case True
  note step = split_pdf_step [OF assms True, of st s t]
  show ?thesis
  proof (cases "PdfReader E (content file)")
    case None
    with True step show ?thesis
      by (simp add: split_try_unreadable)
  next
    case (Some pages)
    show ?thesis
    proof (cases "s < 1 \<or> t < s \<or> t > int (length pages)")
      case bad: True
      from split_try_range [OF Some bad] True step Some bad show ?thesis
        by simp
    next
      case ok: False
      then have b: "1 \<le> s" "s \<le> t" "t \<le> int (length pages)" by auto
      from split_try_valid [OF Some b] True step Some ok show ?thesis
        by (simp add: Let_def)
    qed
  qed
qed

lemma toy_facts:
  "pypdf2_importable toy" "pil_importable toy"
  "PdfReader toy (content a_pdf) = Some ''xy''"
  "PdfReader toy (content bad_pdf) = None"
  by (simp_all add: toy_def a_pdf_def bad_pdf_def)

theorem split_invalid_input_iff_witness:
  "pypdf2_importable toy \<and>
   fst (split_pdf toy empty_store a_pdf 1 3) =
     Inl (HTTPException 400 ''Invalid page range. Document has 2 pages.'')"
  using split_invalid_input_iff [of toy empty_store a_pdf 1 3]
  by (simp add: toy_facts is_pdf_examples str_nat.simps digit_char_def)

theorem split_invalid_input_counterexample:
  "fst (split_pdf toy empty_store bad_pdf 0 0) = Inl Uncaught \<and>
   \<not> InvalidInput Uncaught \<and> (0::int) < 1 \<and>
   fst (split_pdf no_engine empty_store b_txt 1 1) =
     Inl (HTTPException 500 ''PDF engine unavailable: No module named PyPDF2'') \<and>
   \<not> InvalidInput (HTTPException 500 ''PDF engine unavailable: No module named PyPDF2'') \<and>
   \<not> is_pdf_name b_txt"
proof -
  have "fst (split_pdf toy empty_store bad_pdf 0 0) = Inl Uncaught"
    by (simp add: split_pdf_step split_try_unreadable toy_facts is_pdf_examples)
  moreover have "fst (split_pdf no_engine empty_store b_txt 1 1) =
                   Inl (HTTPException 500 ''PDF engine unavailable: No module named PyPDF2'')"
    by (simp add: split_pdf_def no_engine_def)
  ultimately show ?thesis
    by (simp add: is_pdf_examples)
qed

subsection \<open>What split extracts\<close>

lemma takeWhile_until:
  "\<forall>x\<in>set xs. P x \<Longrightarrow> \<not> P y \<Longrightarrow> takeWhile P (xs @ y # ys) = xs"
  by (induction xs) auto

lemma after_last_append:
  "sep \<notin> set name \<Longrightarrow> after_last sep (pre @ sep # name) = name"
proof -
  assume "sep \<notin> set name"
  then have "\<forall>x\<in>set (rev name). x \<noteq> sep" by auto
  then have "takeWhile (\<lambda>c. c \<noteq> sep) (rev name @ sep # rev pre) = rev name"
    by (rule takeWhile_until) simp
  then show ?thesis by (simp add: after_last_def)
qed

lemma join_temp:
  "name \<noteq> [] \<Longrightarrow> hd name \<noteq> CHR ''/'' \<Longrightarrow> join TEMP_DIR name = TEMP_DIR @ ''/'' @ name"
  by (simp add: join_def TEMP_DIR_def)

lemma basename_temp:
  "CHR ''/'' \<notin> set name \<Longrightarrow> basename (TEMP_DIR @ ''/'' @ name) = name"
  using after_last_append [of "CHR ''/''" name TEMP_DIR] by (simp add: basename_def)

lemma is_uuid_chars: "is_uuid u \<Longrightarrow> c \<in> set u \<Longrightarrow> c \<in> set uuid_chars"
  by (simp add: is_uuid_def list_all_iff)

lemma is_uuid_nonempty: "is_uuid u \<Longrightarrow> u \<noteq> []"
  by (auto simp: is_uuid_def)

lemma is_uuid_hd: "is_uuid u \<Longrightarrow> hd u \<in> set uuid_chars"
  using is_uuid_chars [of u "hd u"] is_uuid_nonempty [of u] by simp

lemma is_uuid_no_slash: "is_uuid u \<Longrightarrow> CHR ''/'' \<notin> set u"
  using is_uuid_chars [of u "CHR ''/''"] by (auto simp: uuid_chars_def)

text \<open>The three artifact names: a prefix, a uuid, and \<^verbatim>\<open>.pdf\<close>.\<close>

lemma artifact_path:
  assumes "is_uuid u" "pre \<noteq> []" "CHR ''/'' \<notin> set pre"
  shows "join TEMP_DIR (pre @ u @ ''.pdf'') = TEMP_DIR @ ''/'' @ pre @ u @ ''.pdf''"
    and "basename (join TEMP_DIR (pre @ u @ ''.pdf'')) = pre @ u @ ''.pdf''"
proof -
  have ns: "CHR ''/'' \<notin> set (pre @ u @ ''.pdf'')"
    using assms is_uuid_no_slash [of u] by simp
  have "hd (pre @ u @ ''.pdf'') \<noteq> CHR ''/''"
    using assms(2,3) by (cases pre) auto
  then show j: "join TEMP_DIR (pre @ u @ ''.pdf'') = TEMP_DIR @ ''/'' @ pre @ u @ ''.pdf''"
    using assms(2) by (simp add: join_temp)
  show "basename (join TEMP_DIR (pre @ u @ ''.pdf'')) = pre @ u @ ''.pdf''"
    using basename_temp [OF ns] j by simp
qed

lemma dest_path_shape:
  "is_uuid (uuid4 E n) \<Longrightarrow>
   dest_path E n f = TEMP_DIR @ ''/'' @ uuid4 E n @ ''.'' @ lower (split_dot_last (basename (filename f)))"
proof -
  assume u: "is_uuid (uuid4 E n)"
  have "hd (uuid4 E n) \<noteq> CHR ''/''"
    using is_uuid_no_slash [OF u] is_uuid_nonempty [OF u] by (cases "uuid4 E n") auto
  then show ?thesis
    using is_uuid_nonempty [OF u] by (simp add: dest_path_def join_temp)
qed

lemma artifact_not_upload:
  assumes "uuid_supply E" "is_uuid u" "pre \<noteq> []" "CHR ''/'' \<notin> set pre"
    "hd pre \<notin> set uuid_chars"
  shows "join TEMP_DIR (pre @ u @ ''.pdf'') \<notin> upload_paths E"
proof
  assume "join TEMP_DIR (pre @ u @ ''.pdf'') \<in> upload_paths E"
  then obtain n f where e: "join TEMP_DIR (pre @ u @ ''.pdf'') = dest_path E n f"
    by (auto simp: upload_paths_def)
  have un: "is_uuid (uuid4 E n)" using assms(1) by (simp add: uuid_supply_def)
  from e have "pre @ u @ ''.pdf'' =
      uuid4 E n @ ''.'' @ lower (split_dot_last (basename (filename f)))"
    by (simp add: artifact_path(1) [OF assms(2,3,4)] dest_path_shape [OF un])
  then have "hd (pre @ u @ ''.pdf'') = hd (uuid4 E n @ ''.'' @ lower (split_dot_last (basename (filename f))))"
    by simp
  then have "hd pre = hd (uuid4 E n)"
    using assms(3) is_uuid_nonempty [OF un] by simp
  with is_uuid_hd [OF un] assms(5) show False by simp
qed

lemma range_pages:
  fixes pages :: "'a list"
  assumes "1 \<le> s" "s \<le> t"
  defines "out \<equiv> map (\<lambda>i. pages ! nat i) [s - 1 .. t - 1]"
  shows "int (length out) = t - s + 1"
    and "\<forall>i. 1 \<le> i \<and> i \<le> t - s + 1 \<longrightarrow> nth_page out i = nth_page pages (s + i - 1)"
proof -
  show len: "int (length out) = t - s + 1"
    using assms(1,2) by (simp add: out_def)
  show "\<forall>i. 1 \<le> i \<and> i \<le> t - s + 1 \<longrightarrow> nth_page out i = nth_page pages (s + i - 1)"
  proof (intro allI impI)
    fix i :: int
    assume i: "1 \<le> i \<and> i \<le> t - s + 1"
    then have k: "nat (i - 1) < length [s - 1 .. t - 1]" by simp
    have "[s - 1 .. t - 1] ! nat (i - 1) = s - 1 + int (nat (i - 1))"
      using i by (intro nth_upto) simp
    then have "out ! nat (i - 1) = pages ! nat (s - 1 + (i - 1))"
      using k i by (simp add: out_def)
    then show "nth_page out i = nth_page pages (s + i - 1)"
      by (simp add: nth_page_def algebra_simps)
  qed
qed

text \<open>
  C5. For a valid split request (engine importable, a name ending in \<^verbatim>\<open>.pdf\<close>, a
  document the engine reads, and \<open>1 \<le> start_page \<le> end_page \<le> N\<close>) the handler succeeds, and
  the file it leaves under the returned identifier is the engine's serialisation of a page
  list with exactly \<open>end_page - start_page + 1\<close> pages whose page \<open>i\<close> (counted from 1) is
  page \<open>start_page + i - 1\<close> of the input. The identifiers come from \<^verbatim>\<open>uuid4\<close>, whose
  values are 36 characters of lower-case hexadecimal digits and hyphens.
\<close>

theorem split_extracts_range:
  assumes "pypdf2_importable E" "uuid_supply E" "is_pdf_name file"
    and "PdfReader E (content file) = Some pages"
    and "1 \<le> s" "s \<le> t" "t \<le> int (length pages)"
  shows "\<exists>d st' out.
           split_pdf E st file s t = (Inr d, st') \<and>
           files st' (join TEMP_DIR (file_id d)) = Some (PdfWriter_write E out) \<and>
           int (length out) = t - s + 1 \<and>
           (\<forall>i. 1 \<le> i \<and> i \<le> t - s + 1 \<longrightarrow> nth_page out i = nth_page pages (s + i - 1))"
proof -
  define u where "u = uuid4 E (Suc (uuid_next st))"
  define src where "src = dest_path E (uuid_next st) file"
  define out_name where "out_name = ''split_'' @ u @ ''.pdf''"
  define out_path where "out_path = join TEMP_DIR out_name"
  define out where "out = map (\<lambda>i. pages ! nat i) [s - 1 .. t - 1]"
  define st2 where "st2 = (stored E st file)\<lparr>files := (files (stored E st file))
                 (out_path \<mapsto> PdfWriter_write E out),
               uuid_next := Suc (Suc (uuid_next st))\<rparr>"
  have iu: "is_uuid u"
    using assms(2) by (simp add: uuid_supply_def u_def)
  have bn: "basename out_path = out_name"
    using artifact_path(2) [OF iu, of "''split_''"] by (simp add: out_path_def out_name_def)
  have "out_path \<notin> upload_paths E"
    using artifact_not_upload [OF assms(2) iu, of "''split_''"]
    by (simp add: out_path_def out_name_def uuid_chars_def)
  moreover have "src \<in> upload_paths E"
    by (auto simp: upload_paths_def src_def)
  ultimately have ne: "out_path \<noteq> src" by auto
  have 1: "split_pdf E st file s t = (Inr (make_download out_path out_name), remove_all [src] st2)"
    using split_pdf_step [OF assms(1,3), of st s t] split_try_valid [OF assms(4-7), where st = st]
    by (simp add: Let_def u_def src_def out_name_def out_path_def out_def st2_def)
  have "file_id (make_download out_path out_name) = out_name"
    using bn by (simp add: make_download_def)
  moreover have "files (remove_all [src] st2) out_path = Some (PdfWriter_write E out)"
    using ne by (simp add: st2_def)
  ultimately have 2: "files (remove_all [src] st2)
      (join TEMP_DIR (file_id (make_download out_path out_name))) = Some (PdfWriter_write E out)"
    by (simp add: out_path_def)
  have 3: "int (length out) = t - s + 1"
    unfolding out_def by (rule range_pages(1) [OF assms(5,6)])
  have 4: "\<forall>i. 1 \<le> i \<and> i \<le> t - s + 1 \<longrightarrow> nth_page out i = nth_page pages (s + i - 1)"
    unfolding out_def by (rule range_pages(2) [OF assms(5,6)])
  from 1 2 3 4 show ?thesis
    by blast
qed

lemma digit_char_uuid: "digit_char (n mod 10) \<in> set uuid_chars"
proof -
  have "n mod 10 < length ''0123456789''" by simp
  then have "''0123456789'' ! (n mod 10) \<in> set ''0123456789''" by (rule nth_mem)
  then show ?thesis by (auto simp: digit_char_def uuid_chars_def)
qed

lemma toy_uuid_supply: "uuid_supply toy"
  using digit_char_uuid by (simp add: uuid_supply_def is_uuid_def toy_def uuid_chars_def)

lemma five_pdf_facts:
  "is_pdf_name five_pdf" "PdfReader toy (content five_pdf) = Some ''abcde''"
  by (simp_all add: is_pdf_name_def five_pdf_def endswith_def lower_def
      lower_char_def upper_letters_def lower_letters_def toy_def)

theorem split_extracts_range_witness:
  "pypdf2_importable toy \<and> uuid_supply toy \<and> is_pdf_name five_pdf \<and>
   PdfReader toy (content five_pdf) = Some ''abcde'' \<and>
   (\<exists>d st' out.
      split_pdf toy empty_store five_pdf 2 4 = (Inr d, st') \<and>
      files st' (join TEMP_DIR (file_id d)) = Some (PdfWriter_write toy out) \<and>
      int (length out) = 3 \<and>
      (\<forall>i. 1 \<le> i \<and> i \<le> 3 \<longrightarrow> nth_page out i = nth_page ''abcde'' (2 + i - 1)))"
  using split_extracts_range [OF toy_facts(1) toy_uuid_supply five_pdf_facts,
      where s = 2 and t = 4 and st = empty_store]
  by (simp add: toy_facts toy_uuid_supply five_pdf_facts)

subsection \<open>What merge writes\<close>

text \<open>
  C4. For a valid merge request (engine importable, two or more files, each with a name
  ending in \<^verbatim>\<open>.pdf\<close> and read by the engine) the handler succeeds, and the file it leaves
  under the returned identifier is the engine's serialisation of the concatenation of the
  inputs' page lists, in input order: all pages of a file come before all pages of the
  next, each file's pages in their own order, and the page count is the sum of the
  inputs' page counts.
\<close>

theorem merge_concatenates:
  assumes "pypdf2_importable E" "uuid_supply E" "2 \<le> length fs"
    and "list_all is_pdf_name fs" "list_all (readable E) fs"
  shows "\<exists>d st'.
           merge_pdfs E st fs = (Inr d, st') \<and>
           files st' (join TEMP_DIR (file_id d))
             = Some (PdfWriter_write E (concat (map (doc_pages E) fs))) \<and>
           length (concat (map (doc_pages E) fs)) = sum_list (map (\<lambda>f. length (doc_pages E f)) fs)"
proof -
  obtain sv st1 where
    loop: "merge_loop E fs [] [] st = (None, concat (map (doc_pages E) fs), sv, st1)"
    using merge_loop_ok [OF assms(4,5), of "[]" "[]" st] by auto
  define u where "u = uuid4 E (uuid_next st1)"
  define out_name where "out_name = ''merged_'' @ u @ ''.pdf''"
  define out_path where "out_path = join TEMP_DIR out_name"
  define st2 where "st2 = st1\<lparr>files := (files st1)
                 (out_path \<mapsto> PdfWriter_write E (concat (map (doc_pages E) fs))),
               uuid_next := Suc (uuid_next st1)\<rparr>"
  have iu: "is_uuid u"
    using assms(2) by (simp add: uuid_supply_def u_def)
  have bn: "basename out_path = out_name"
    using artifact_path(2) [OF iu, of "''merged_''"] by (simp add: out_path_def out_name_def)
  have "out_path \<notin> upload_paths E"
    using artifact_not_upload [OF assms(2) iu, of "''merged_''"]
    by (simp add: out_path_def out_name_def uuid_chars_def)
  moreover have "set sv \<subseteq> upload_paths E"
    using merge_loop_saved [OF loop] by simp
  ultimately have ne: "out_path \<notin> set sv" by auto
  have tr: "merge_try E st fs = (Inr (make_download out_path out_name), sv, st2)"
    using loop by (simp add: merge_try_def Let_def u_def out_name_def out_path_def st2_def)
  have ne2: "fs \<noteq> []" using assms(3) by auto
  have 1: "merge_pdfs E st fs = (Inr (make_download out_path out_name), remove_all sv st2)"
    using assms(1,3) ne2 tr by (simp add: merge_pdfs_def)
  have "file_id (make_download out_path out_name) = out_name"
    using bn by (simp add: make_download_def)
  moreover have "files (remove_all sv st2) out_path
      = Some (PdfWriter_write E (concat (map (doc_pages E) fs)))"
    using ne by (simp add: files_remove_all st2_def)
  ultimately have 2: "files (remove_all sv st2)
      (join TEMP_DIR (file_id (make_download out_path out_name)))
      = Some (PdfWriter_write E (concat (map (doc_pages E) fs)))"
    by (simp add: out_path_def)
  have 3: "length (concat (map (doc_pages E) fs)) = sum_list (map (\<lambda>f. length (doc_pages E f)) fs)"
    by (simp add: length_concat comp_def)
  from 1 2 3 show ?thesis
    by blast
qed

lemma c_pdf_facts:
  "is_pdf_name c_pdf" "readable toy c_pdf" "doc_pages toy c_pdf = ''z''"
  "doc_pages toy a_pdf = ''xy''"
  by (simp_all add: is_pdf_name_def c_pdf_def a_pdf_def endswith_def lower_def readable_def
      doc_pages_def lower_char_def upper_letters_def lower_letters_def toy_def)

theorem merge_concatenates_witness:
  "pypdf2_importable toy \<and> uuid_supply toy \<and> 2 \<le> length [a_pdf, c_pdf] \<and>
   list_all is_pdf_name [a_pdf, c_pdf] \<and> list_all (readable toy) [a_pdf, c_pdf] \<and>
   (\<exists>d st'.
      merge_pdfs toy empty_store [a_pdf, c_pdf] = (Inr d, st') \<and>
      files st' (join TEMP_DIR (file_id d)) = Some (PdfWriter_write toy ''xyz'') \<and>
      length ''xyz'' = 2 + 1)"
proof -
  have h: "2 \<le> length [a_pdf, c_pdf]" "list_all is_pdf_name [a_pdf, c_pdf]"
    "list_all (readable toy) [a_pdf, c_pdf]"
    by (simp_all add: is_pdf_examples readable_examples c_pdf_facts)
  from merge_concatenates [OF toy_facts(1) toy_uuid_supply h, of empty_store] h
  show ?thesis
    by (simp add: toy_facts toy_uuid_supply c_pdf_facts)
qed

subsection \<open>What images-to-pdf writes\<close>

lemma image_name_nonempty: "is_image_name f \<Longrightarrow> filename f \<noteq> []"
  by (auto simp: is_image_name_def image_exts_def endswith_def lower_def)

lemma images_loop_step:
  "is_image_name img \<Longrightarrow>
   images_loop E (img # imgs) pil sv st =
     (case Image_open E (content img) of
        None \<Rightarrow> (Some Uncaught, pil, sv @ [dest_path E (uuid_next st) img], stored E st img)
      | Some x \<Rightarrow>
          images_loop E imgs (pil @ [x]) (sv @ [dest_path E (uuid_next st) img]) (stored E st img))"
  using image_name_nonempty [of img]
  by (simp add: save_upload_named files_stored_dest is_image_name_def)

lemma images_loop_stop:
  "\<not> is_image_name img \<Longrightarrow>
   images_loop E (img # imgs) pil sv st =
     (Some (HTTPException 400 (''Unsupported image format: '' @ filename img)), pil, sv, st)"
  by (simp add: is_image_name_def)

declare images_loop.simps(2) [simp del]

lemma images_loop_ok:
  "list_all is_image_name imgs \<Longrightarrow> list_all (decodable E) imgs \<Longrightarrow>
   \<exists>sv' st'. images_loop E imgs pil sv st = (None, pil @ map (decoded E) imgs, sv', st')"
proof (induction imgs arbitrary: pil sv st)
  case Nil
  show ?case by simp
next
  case (Cons f fs)
  then obtain x where p: "Image_open E (content f) = Some x"
    by (auto simp: decodable_def)
  from Cons.prems have "is_image_name f" "list_all is_image_name fs" "list_all (decodable E) fs"
    by simp_all
  with Cons.IH [of "pil @ [x]"] p show ?case
    by (simp add: images_loop_step decoded_def)
qed

lemma images_loop_saved:
  "images_loop E imgs pil sv st = (r, pil', sv', st') \<Longrightarrow>
     set sv \<subseteq> set sv' \<and> set sv' \<subseteq> set sv \<union> upload_paths E \<and>
     dom (files st') \<subseteq> dom (files st) \<union> set sv'"
proof (induction imgs arbitrary: pil sv st)
  case Nil
  then show ?case by auto
next
  case (Cons f fs)
  show ?case
  proof (cases "is_image_name f")
    case False
    with Cons.prems show ?thesis by (auto simp: images_loop_stop)
  next
    case True
    have in_up: "dest_path E (uuid_next st) f \<in> upload_paths E"
      by (auto simp: upload_paths_def)
    show ?thesis
    proof (cases "Image_open E (content f)")
      case None
      with True Cons.prems in_up show ?thesis
        by (auto simp: images_loop_step files_stored split: if_splits)
    next
      case (Some x)
      with True Cons.prems
      have "images_loop E fs (pil @ [x]) (sv @ [dest_path E (uuid_next st) f]) (stored E st f)
              = (r, pil', sv', st')"
        by (simp add: images_loop_step)
      from Cons.IH [OF this]
      have a: "set (sv @ [dest_path E (uuid_next st) f]) \<subseteq> set sv'"
        and b: "set sv' \<subseteq> set (sv @ [dest_path E (uuid_next st) f]) \<union> upload_paths E"
        and c: "dom (files st') \<subseteq> dom (files (stored E st f)) \<union> set sv'"
        by blast+
      have d: "dom (files (stored E st f)) \<subseteq> dom (files st) \<union> set sv'"
        using a by (auto simp: files_stored split: if_splits)
      have e: "set sv \<subseteq> set sv'"
        using a by simp
      have g: "set sv' \<subseteq> set sv \<union> upload_paths E"
        using b in_up by auto
      have h: "dom (files st') \<subseteq> dom (files st) \<union> set sv'"
        using c d by blast
      from e g h show ?thesis
        by blast
    qed
  qed
qed

text \<open>
  C6. For a valid images-to-pdf request (engine importable, one or more files, each with
  a name ending in one of the five image extensions and decoded by the engine) the
  handler succeeds, and the file it leaves under the returned identifier is what the
  engine saves for the first decoded image with the remaining decoded images appended:
  one image per input file, in input order, so as many pages as there are inputs.
\<close>

theorem images_one_page_each:
  assumes "pil_importable E" "uuid_supply E" "imgs \<noteq> []"
    and "list_all is_image_name imgs" "list_all (decodable E) imgs"
  shows "\<exists>d st' first rest.
           images_to_pdf E st imgs = (Inr d, st') \<and>
           files st' (join TEMP_DIR (file_id d)) = Some (Image_save E first rest) \<and>
           first # rest = map (decoded E) imgs \<and>
           length (first # rest) = length imgs"
proof -
  obtain sv st1 where
    loop: "images_loop E imgs [] [] st = (None, map (decoded E) imgs, sv, st1)"
    using images_loop_ok [OF assms(4,5), of "[]" "[]" st] by auto
  obtain first rest where fr: "map (decoded E) imgs = first # rest"
    using assms(3) by (cases imgs) auto
  define u where "u = uuid4 E (uuid_next st1)"
  define out_name where "out_name = ''images_'' @ u @ ''.pdf''"
  define out_path where "out_path = join TEMP_DIR out_name"
  define st2 where "st2 = st1\<lparr>files := (files st1)(out_path \<mapsto> Image_save E first rest),
               uuid_next := Suc (uuid_next st1)\<rparr>"
  have iu: "is_uuid u"
    using assms(2) by (simp add: uuid_supply_def u_def)
  have bn: "basename out_path = out_name"
    using artifact_path(2) [OF iu, of "''images_''"] by (simp add: out_path_def out_name_def)
  have "out_path \<notin> upload_paths E"
    using artifact_not_upload [OF assms(2) iu, of "''images_''"]
    by (simp add: out_path_def out_name_def uuid_chars_def)
  moreover have "set sv \<subseteq> upload_paths E"
    using images_loop_saved [OF loop] by simp
  ultimately have ne: "out_path \<notin> set sv" by auto
  have tr: "images_try E st imgs = (Inr (make_download out_path out_name), sv, st2)"
    using loop fr by (simp add: images_try_def Let_def u_def out_name_def out_path_def st2_def)
  have 1: "images_to_pdf E st imgs = (Inr (make_download out_path out_name), remove_all sv st2)"
    using assms(1,3) tr by (simp add: images_to_pdf_def)
  have "file_id (make_download out_path out_name) = out_name"
    using bn by (simp add: make_download_def)
  moreover have "files (remove_all sv st2) out_path = Some (Image_save E first rest)"
    using ne by (simp add: files_remove_all st2_def)
  ultimately have 2: "files (remove_all sv st2)
      (join TEMP_DIR (file_id (make_download out_path out_name))) = Some (Image_save E first rest)"
    by (simp add: out_path_def)
  have 3: "length (first # rest) = length imgs"
    using fr [symmetric] by simp
  from 1 2 3 fr show ?thesis
    by metis
qed

lemma image_examples:
  "is_image_name p_png" "is_image_name q_jpg" "decodable toy p_png" "decodable toy q_jpg"
  "decoded toy p_png = ''PNG''" "decoded toy q_jpg = ''JPEG''"
  by (simp_all add: is_image_name_def image_exts_def p_png_def q_jpg_def endswith_def lower_def
      decodable_def decoded_def lower_char_def upper_letters_def lower_letters_def toy_def)

theorem images_one_page_each_witness:
  "pil_importable toy \<and> uuid_supply toy \<and> [p_png, q_jpg] \<noteq> [] \<and>
   list_all is_image_name [p_png, q_jpg] \<and> list_all (decodable toy) [p_png, q_jpg] \<and>
   (\<exists>d st'.
      images_to_pdf toy empty_store [p_png, q_jpg] = (Inr d, st') \<and>
      files st' (join TEMP_DIR (file_id d)) = Some (Image_save toy ''PNG'' [''JPEG'']))"
proof -
  have h: "[p_png, q_jpg] \<noteq> []" "list_all is_image_name [p_png, q_jpg]"
    "list_all (decodable toy) [p_png, q_jpg]"
    by (simp_all add: image_examples)
  from images_one_page_each [OF toy_facts(2) toy_uuid_supply h, of empty_store] h
  show ?thesis
    by (auto simp: toy_facts toy_uuid_supply image_examples)
qed

subsection \<open>Cleanup of uploaded inputs\<close>















subsection \<open>Round trip from a handler to the download\<close>

lemma after_last_none: "sep \<notin> set s \<Longrightarrow> after_last sep s = s"
proof -
  assume "sep \<notin> set s"
  then have "\<forall>x\<in>set (rev s). x \<noteq> sep" by auto
  then have "takeWhile (\<lambda>c. c \<noteq> sep) (rev s) = rev s"
    by simp
  then have "rev (takeWhile (\<lambda>c. c \<noteq> sep) (rev s)) = rev (rev s)"
    by (rule arg_cong)
  then show ?thesis by (simp only: after_last_def rev_rev_ident)
qed

lemma round_trip_artifact:
  assumes "is_uuid u" "pre \<noteq> []" "CHR ''/'' \<notin> set pre"
    and "files st1 (join TEMP_DIR (pre @ u @ ''.pdf'')) = Some body"
    and "files st' (join TEMP_DIR (pre @ u @ ''.pdf'')) = Some body"
  shows "round_trip (make_download (join TEMP_DIR (pre @ u @ ''.pdf'')) (pre @ u @ ''.pdf'')) st1 st'"
proof -
  define nm where "nm = pre @ u @ ''.pdf''"
  define d where "d = make_download (join TEMP_DIR nm) nm"
  have ns: "CHR ''/'' \<notin> set nm"
    using assms(1,3) is_uuid_no_slash [of u] by (simp add: nm_def)
  have fid: "file_id d = nm" and lbl: "label d = nm"
    using artifact_path(2) [OF assms(1-3)] by (simp_all add: d_def make_download_def Let_def nm_def)
  have bb: "basename nm = nm"
    using after_last_none [OF ns] by (simp add: basename_def)
  have ex: "path_exists st' (join TEMP_DIR nm)"
    using assms(5) by (simp add: path_exists_def nm_def)
  have dl: "download_file st' (file_id d)
      = Inr \<lparr>path = join TEMP_DIR nm, served_name = file_id d, media_type = ''application/pdf''\<rparr>"
    using ex by (simp add: download_file_def fid bb Let_def)
  have "d = make_download (join TEMP_DIR nm) (label d)"
    by (simp add: lbl) (simp add: d_def)
  moreover have "join TEMP_DIR (basename (file_id d)) = join TEMP_DIR nm"
    by (simp add: fid bb)
  moreover have "files st1 (join TEMP_DIR nm) = Some body" "files st' (join TEMP_DIR nm) = Some body"
    using assms(4,5) by (simp_all add: nm_def)
  ultimately have "round_trip d st1 st'"
    unfolding round_trip_def using dl by blast
  then show ?thesis by (simp add: d_def nm_def)
qed

lemma merge_try_success:
  assumes "uuid_supply E" "merge_try E st fs = (Inr d, sv, st1)"
  shows "\<exists>u body. is_uuid u \<and>
           d = make_download (join TEMP_DIR (''merged_'' @ u @ ''.pdf'')) (''merged_'' @ u @ ''.pdf'') \<and>
           files st1 (join TEMP_DIR (''merged_'' @ u @ ''.pdf'')) = Some body \<and>
           join TEMP_DIR (''merged_'' @ u @ ''.pdf'') \<notin> set sv"
proof -
  obtain ro w sv' st' where loop: "merge_loop E fs [] [] st = (ro, w, sv', st')"
    by (metis prod_cases4)
  define u where "u = uuid4 E (uuid_next st')"
  have iu: "is_uuid u" using assms(1) by (simp add: uuid_supply_def u_def)
  from loop assms(2) have none: "ro = None"
    by (cases ro) (simp_all add: merge_try_def)
  from none loop assms(2)
  have d: "d = make_download (join TEMP_DIR (''merged_'' @ u @ ''.pdf'')) (''merged_'' @ u @ ''.pdf'')"
    and s: "sv = sv'"
    and t: "files st1 (join TEMP_DIR (''merged_'' @ u @ ''.pdf'')) = Some (PdfWriter_write E w)"
    by (auto simp: merge_try_def Let_def u_def)
  have "join TEMP_DIR (''merged_'' @ u @ ''.pdf'') \<notin> upload_paths E"
    using artifact_not_upload [OF assms(1) iu, of "''merged_''"] by (simp add: uuid_chars_def)
  moreover have "set sv' \<subseteq> upload_paths E"
    using merge_loop_saved [OF loop] by simp
  ultimately have "join TEMP_DIR (''merged_'' @ u @ ''.pdf'') \<notin> set sv"
    using s by auto
  with iu d t show ?thesis by blast
qed

lemma images_try_success:
  assumes "uuid_supply E" "images_try E st imgs = (Inr d, sv, st1)"
  shows "\<exists>u body. is_uuid u \<and>
           d = make_download (join TEMP_DIR (''images_'' @ u @ ''.pdf'')) (''images_'' @ u @ ''.pdf'') \<and>
           files st1 (join TEMP_DIR (''images_'' @ u @ ''.pdf'')) = Some body \<and>
           join TEMP_DIR (''images_'' @ u @ ''.pdf'') \<notin> set sv"
proof -
  obtain ro pil sv' st' where loop: "images_loop E imgs [] [] st = (ro, pil, sv', st')"
    by (metis prod_cases4)
  define u where "u = uuid4 E (uuid_next st')"
  have iu: "is_uuid u" using assms(1) by (simp add: uuid_supply_def u_def)
  from loop assms(2) have none: "ro = None"
    by (cases ro) (simp_all add: images_try_def)
  from none loop assms(2) obtain first rest where pil: "pil = first # rest"
    by (cases pil) (simp_all add: images_try_def Let_def)
  from none pil loop assms(2)
  have d: "d = make_download (join TEMP_DIR (''images_'' @ u @ ''.pdf'')) (''images_'' @ u @ ''.pdf'')"
    and s: "sv = sv'"
    and t: "files st1 (join TEMP_DIR (''images_'' @ u @ ''.pdf'')) = Some (Image_save E first rest)"
    by (auto simp: images_try_def Let_def u_def)
  have "join TEMP_DIR (''images_'' @ u @ ''.pdf'') \<notin> upload_paths E"
    using artifact_not_upload [OF assms(1) iu, of "''images_''"] by (simp add: uuid_chars_def)
  moreover have "set sv' \<subseteq> upload_paths E"
    using images_loop_saved [OF loop] by simp
  ultimately have "join TEMP_DIR (''images_'' @ u @ ''.pdf'') \<notin> set sv"
    using s by auto
  with iu d t show ?thesis by blast
qed

lemma split_try_success:
  assumes "uuid_supply E" "split_try E st0 p s t = (Inr d, st1)"
  shows "\<exists>u body. is_uuid u \<and>
           d = make_download (join TEMP_DIR (''split_'' @ u @ ''.pdf'')) (''split_'' @ u @ ''.pdf'') \<and>
           files st1 (join TEMP_DIR (''split_'' @ u @ ''.pdf'')) = Some body"
proof -
  define u where "u = uuid4 E (uuid_next st0)"
  have iu: "is_uuid u" using assms(1) by (simp add: uuid_supply_def u_def)
  from assms(2)
  have "d = make_download (join TEMP_DIR (''split_'' @ u @ ''.pdf'')) (''split_'' @ u @ ''.pdf'') \<and>
        (\<exists>body. files st1 (join TEMP_DIR (''split_'' @ u @ ''.pdf'')) = Some body)"
    unfolding split_try_def Let_def u_def [symmetric]
    by (auto split: option.splits if_splits)
  with iu show ?thesis by blast
qed

lemma merge_round_trip:
  assumes "uuid_supply E" "merge_pdfs E st fs = (Inr d, st')"
  shows "round_trip d (snd (snd (merge_try E st fs))) st'"
proof -
  have g: "\<not> (\<not> pypdf2_importable E \<or> fs = [] \<or> length fs < 2)"
    using assms(2) by (auto simp: merge_pdfs_def split: if_splits)
  obtain r sv stt where tr: "merge_try E st fs = (r, sv, stt)"
    by (metis prod_cases3)
  from g tr assms(2) have r: "r = Inr d" and s: "st' = remove_all sv stt"
    by (simp_all add: merge_pdfs_def)
  from merge_try_success [OF assms(1) tr [unfolded r]] obtain u body where
    iu: "is_uuid u"
    and d: "d = make_download (join TEMP_DIR (''merged_'' @ u @ ''.pdf'')) (''merged_'' @ u @ ''.pdf'')"
    and w: "files stt (join TEMP_DIR (''merged_'' @ u @ ''.pdf'')) = Some body"
    and n: "join TEMP_DIR (''merged_'' @ u @ ''.pdf'') \<notin> set sv"
    by blast
  have k: "files st' (join TEMP_DIR (''merged_'' @ u @ ''.pdf'')) = Some body"
    using w n by (simp add: s files_remove_all)
  from round_trip_artifact [OF iu _ _ w k] show ?thesis
    by (simp add: tr d)
qed

lemma images_round_trip:
  assumes "uuid_supply E" "images_to_pdf E st imgs = (Inr d, st')"
  shows "round_trip d (snd (snd (images_try E st imgs))) st'"
proof -
  have g: "\<not> (\<not> pil_importable E \<or> imgs = [])"
    using assms(2) by (auto simp: images_to_pdf_def split: if_splits)
  obtain r sv stt where tr: "images_try E st imgs = (r, sv, stt)"
    by (metis prod_cases3)
  from g tr assms(2) have r: "r = Inr d" and s: "st' = remove_all sv stt"
    by (simp_all add: images_to_pdf_def)
  from images_try_success [OF assms(1) tr [unfolded r]] obtain u body where
    iu: "is_uuid u"
    and d: "d = make_download (join TEMP_DIR (''images_'' @ u @ ''.pdf'')) (''images_'' @ u @ ''.pdf'')"
    and w: "files stt (join TEMP_DIR (''images_'' @ u @ ''.pdf'')) = Some body"
    and n: "join TEMP_DIR (''images_'' @ u @ ''.pdf'') \<notin> set sv"
    by blast
  have k: "files st' (join TEMP_DIR (''images_'' @ u @ ''.pdf'')) = Some body"
    using w n by (simp add: s files_remove_all)
  from round_trip_artifact [OF iu _ _ w k] show ?thesis
    by (simp add: tr d)
qed

lemma split_round_trip:
  assumes "uuid_supply E" "split_pdf E st f s t = (Inr d, st')"
  shows "round_trip d
           (snd (split_try E (stored E st f) (dest_path E (uuid_next st) f) s t)) st'"
proof -
  have g: "pypdf2_importable E" "is_pdf_name f"
    using assms(2) by (auto simp: split_pdf_def is_pdf_name_def split: if_splits)
  define src where "src = dest_path E (uuid_next st) f"
  obtain r stt where tr: "split_try E (stored E st f) src s t = (r, stt)"
    by (metis prod.exhaust)
  from split_pdf_step [OF g, of st s t] tr assms(2)
  have r: "r = Inr d" and s: "st' = remove_all [src] stt"
    by (simp_all add: src_def)
  from split_try_success [OF assms(1) tr [unfolded r]] obtain u body where
    iu: "is_uuid u"
    and d: "d = make_download (join TEMP_DIR (''split_'' @ u @ ''.pdf'')) (''split_'' @ u @ ''.pdf'')"
    and w: "files stt (join TEMP_DIR (''split_'' @ u @ ''.pdf'')) = Some body"
    by blast
  have "join TEMP_DIR (''split_'' @ u @ ''.pdf'') \<notin> upload_paths E"
    using artifact_not_upload [OF assms(1) iu, of "''split_''"] by (simp add: uuid_chars_def)
  moreover have "src \<in> upload_paths E"
    by (auto simp: upload_paths_def src_def)
  ultimately have n: "join TEMP_DIR (''split_'' @ u @ ''.pdf'') \<noteq> src" by auto
  have k: "files st' (join TEMP_DIR (''split_'' @ u @ ''.pdf'')) = Some body"
    using w n by (simp add: s)
  from round_trip_artifact [OF iu _ _ w k] show ?thesis
    using tr by (simp add: d src_def)
qed

text \<open>
  C9. Whenever merge, split or images-to-pdf succeeds, the returned identifier is the
  basename of the artifact's path, the download handler's basename-then-join of that
  identifier gives the artifact's path back, the download succeeds with that path, and
  the bytes stored there when the handler has returned are the bytes the \<^verbatim>\<open>try\<close> block
  wrote. The written state is the state at the end of the handler's \<^verbatim>\<open>try\<close> block, the
  returned state the one after its \<^verbatim>\<open>finally\<close> block.
\<close>

theorem download_round_trip:
  assumes "uuid_supply E"
  shows "(merge_pdfs E st fs = (Inr d1, st1) \<longrightarrow>
            round_trip d1 (snd (snd (merge_try E st fs))) st1) \<and>
         (split_pdf E st f s t = (Inr d2, st2) \<longrightarrow>
            round_trip d2
              (snd (split_try E (stored E st f) (dest_path E (uuid_next st) f) s t)) st2) \<and>
         (images_to_pdf E st imgs = (Inr d3, st3) \<longrightarrow>
            round_trip d3 (snd (snd (images_try E st imgs))) st3)"
  using merge_round_trip [OF assms] split_round_trip [OF assms] images_round_trip [OF assms]
  by blast

lemma merge_pdfs_valid:
  assumes "pypdf2_importable E" "2 \<le> length fs"
    and "list_all is_pdf_name fs" "list_all (readable E) fs"
  shows "\<exists>d st'. merge_pdfs E st fs = (Inr d, st')"
proof -
  obtain sv st1 where "merge_loop E fs [] [] st = (None, concat (map (doc_pages E) fs), sv, st1)"
    using merge_loop_ok [OF assms(3,4), of "[]" "[]" st] by auto
  moreover have "fs \<noteq> []" using assms(2) by auto
  ultimately show ?thesis
    using assms(1,2) by (simp add: merge_pdfs_def merge_try_def Let_def)
qed

lemma split_pdf_valid:
  assumes "pypdf2_importable E" "is_pdf_name f" "PdfReader E (content f) = Some pages"
    and "1 \<le> s" "s \<le> t" "t \<le> int (length pages)"
  shows "\<exists>d st'. split_pdf E st f s t = (Inr d, st')"
  using split_pdf_step [OF assms(1,2), of st s t] split_try_valid [OF assms(3-6), where st = st]
  by (simp add: Let_def)

lemma images_to_pdf_valid:
  assumes "pil_importable E" "imgs \<noteq> []"
    and "list_all is_image_name imgs" "list_all (decodable E) imgs"
  shows "\<exists>d st'. images_to_pdf E st imgs = (Inr d, st')"
proof -
  obtain sv st1 where "images_loop E imgs [] [] st = (None, map (decoded E) imgs, sv, st1)"
    using images_loop_ok [OF assms(3,4), of "[]" "[]" st] by auto
  moreover obtain first rest where "map (decoded E) imgs = first # rest"
    using assms(2) by (cases imgs) auto
  ultimately show ?thesis
    using assms(1,2) by (simp add: images_to_pdf_def images_try_def Let_def)
qed

theorem download_round_trip_witness:
  "uuid_supply toy \<and>
   (\<exists>d st'. merge_pdfs toy empty_store [a_pdf, c_pdf] = (Inr d, st') \<and>
      round_trip d (snd (snd (merge_try toy empty_store [a_pdf, c_pdf]))) st') \<and>
   (\<exists>d st'. split_pdf toy empty_store five_pdf 2 4 = (Inr d, st') \<and>
      round_trip d (snd (split_try toy (stored toy empty_store five_pdf)
                      (dest_path toy (uuid_next empty_store) five_pdf) 2 4)) st') \<and>
   (\<exists>d st'. images_to_pdf toy empty_store [p_png, q_jpg] = (Inr d, st') \<and>
      round_trip d (snd (snd (images_try toy empty_store [p_png, q_jpg]))) st')"
proof -
  obtain d1 s1 where m: "merge_pdfs toy empty_store [a_pdf, c_pdf] = (Inr d1, s1)"
    using merge_pdfs_valid [of toy "[a_pdf, c_pdf]" empty_store]
    by (auto simp: toy_facts is_pdf_examples readable_examples c_pdf_facts)
  obtain d2 s2 where s: "split_pdf toy empty_store five_pdf 2 4 = (Inr d2, s2)"
    using split_pdf_valid [OF toy_facts(1) five_pdf_facts, of 2 4 empty_store]
    by auto
  obtain d3 s3 where i: "images_to_pdf toy empty_store [p_png, q_jpg] = (Inr d3, s3)"
    using images_to_pdf_valid [of toy "[p_png, q_jpg]" empty_store]
    by (auto simp: toy_facts image_examples)
  from download_round_trip [OF toy_uuid_supply, of empty_store "[a_pdf, c_pdf]" d1 s1
      five_pdf 2 4 d2 s2 "[p_png, q_jpg]" d3 s3] m s i
  show ?thesis
    by (simp add: toy_uuid_supply)
qed

subsection \<open>When the download answers not-found\<close>

lemma after_last_no_sep: "sep \<notin> set (after_last sep s)"
  by (auto simp: after_last_def dest: set_takeWhileD)

lemma split_on_no_sep: "sep \<notin> set s \<Longrightarrow> split_on sep s = [s]"
  by (induction s) auto

lemma resolve_temp_name:
  assumes "CHR ''/'' \<notin> set name" "name \<noteq> []" "name \<noteq> ''.''" "name \<noteq> ''..''"
  shows "resolve (join TEMP_DIR name) = [''tmp'', ''processed_files'', name]"
proof -
  have "hd name \<noteq> CHR ''/''"
    using assms(1,2) by (cases name) auto
  then have "join TEMP_DIR name = TEMP_DIR @ ''/'' @ name"
    using assms(2) by (simp add: join_temp)
  then show ?thesis
    using assms by (simp add: resolve_def TEMP_DIR_def split_on_no_sep)
qed









subsection \<open>Identifiers that stay inside the temp root\<close>

text \<open>
  Every identifier whose last path component is not \<^verbatim>\<open>..\<close> resolves to the temp root
  or below it.
\<close>

lemma download_inside_unless_dotdot:
  assumes "basename fid \<noteq> ''..''"
  shows "inside_temp_root (join TEMP_DIR (basename fid))"
proof -
  have root: "resolve TEMP_DIR = [''tmp'', ''processed_files'']"
    by (simp add: resolve_def TEMP_DIR_def)
  consider "basename fid = []" | "basename fid = ''.''"
    | "basename fid \<noteq> []" "basename fid \<noteq> ''.''"
    by blast
  then show ?thesis
  proof cases
    case 1
    then show ?thesis
      by (simp add: inside_temp_root_def join_def resolve_def TEMP_DIR_def)
  next
    case 2
    then show ?thesis
      by (simp add: inside_temp_root_def join_def resolve_def TEMP_DIR_def)
  next
    case 3
    have "CHR ''/'' \<notin> set (basename fid)"
      by (simp add: basename_def after_last_no_sep)
    from resolve_temp_name [OF this 3 assms] root show ?thesis
      by (simp add: inside_temp_root_def)
  qed
qed

end
